theory Spec2Isabelle
  imports Main "HOL-Library.Word" "HOL-Library.AList" "HOL-Library.Multiset"
begin

section \<open>Shared data of the proxy package\<close>

text \<open>
  The Go types the two source files share. A \<open>[]byte\<close> is a list of 8-bit words;
  where the source tests a slice against \<open>nil\<close> the model uses an \<open>option\<close>,
  with \<open>None\<close> for \<open>nil\<close>. \<open>common.Address\<close> is a \<open>[20]byte\<close> array, kept as
  the 160-bit number its bytes spell, most significant byte first; \<open>enode.ID\<close> is a
  \<open>[32]byte\<close> array that the code only compares. Go's \<open>error\<close>
  is a value carrying its message; a \<open>nil\<close> error is \<open>None\<close>.
\<close>

type_synonym byte = "8 word"

type_synonym Address = "160 word"

type_synonym enode_ID = "256 word"

datatype error = Error string

text \<open>
  An \<open>enode.Node\<close> is a network descriptor; the code reads its id.
  \<open>consensus.Peer\<close> is an interface; the code reads a peer's node
  (\<open>peer.Node().ID()\<close>) and uses peers as map keys, where two interface values are equal
  when they are the same connection. A \<open>nil\<close> interface value is \<open>None :: Peer option\<close>.
\<close>

datatype enode = Node (ID: enode_ID) (URL: string)

datatype Peer = Peer (conn: nat) (peer_Node: enode)

text \<open>
  \<open>istanbul.ForwardMessage\<close> and \<open>istanbul.Message\<close>, with the fields the proxy
  package names when it builds and reads them.
\<close>

record ForwardMessage =
  fwd_Code :: "64 word"
  fwd_DestAddresses :: "Address list option"
  fwd_Msg :: "byte list"

record Message =
  msg_Code :: "64 word"
  msg_Msg :: "byte list"
  msg_Address :: Address

section \<open>The receive path: \<open>handleForwardMsg\<close>\<close>

text \<open>
  The proxy engine holds the peer of its proxied validator (\<open>nil\<close> when none is
  registered). Everything else the handler touches belongs to collaborators whose code is
  outside this package: the state they own is the field \<open>backend\<close>, of a type the model
  leaves open, and each of their operations is a parameter in \<open>proxy_env\<close>.
  \<open>FromPayload\<close> and \<open>Decode\<close> work on a fresh local message and touch no state;
  \<open>handleEnodeCertificateFromFwdMsg\<close> and \<open>Multicast\<close> may change the
  collaborators' state and return an error or \<open>nil\<close>.
\<close>

record 's proxyEngine =
  proxiedValidator :: "Peer option"
  backend :: 's

record 's proxy_env =
  FromPayload :: "byte list \<Rightarrow> error + Message"
  Decode :: "Message \<Rightarrow> error + ForwardMessage"
  EnodeCertificateMsg :: "64 word"
  handleEnodeCertificateFromFwdMsg :: "byte list \<Rightarrow> 's \<Rightarrow> error option \<times> 's"
  Multicast :: "Address list option \<Rightarrow> byte list \<Rightarrow> 64 word \<Rightarrow> bool \<Rightarrow> 's \<Rightarrow> error option \<times> 's"

text \<open>The calls the handler makes to its collaborators, in the order it makes them.\<close>

datatype proxy_call =
  CallHandleEnodeCertificate "byte list"
| CallMulticast "Address list option" "byte list" "64 word" bool

text \<open>
  The handler returns \<open>(handled, err)\<close>, or panics when it calls \<open>Node()\<close> on a
  \<open>nil\<close> peer. That call is made on every path: in the comparison of line 105 when a
  proxied validator is registered, and otherwise among the arguments of the warning of
  line 106, which are evaluated before the handler returns.
\<close>

datatype handled = HandlerPanics | Handled bool "error option"

text \<open>The last step of the handler (lines 140-146): the re-broadcast.\<close>

definition forwardStep ::
  "'s proxy_env \<Rightarrow> 's proxyEngine \<Rightarrow> ForwardMessage \<Rightarrow> handled \<times> 's proxyEngine \<times> proxy_call list" where
  "forwardStep env p fwdMsg =
     (case Multicast env (fwd_DestAddresses fwdMsg) (fwd_Msg fwdMsg) (fwd_Code fwdMsg) False (backend p) of
        (err, b) \<Rightarrow>
          (Handled True err, p\<lparr>backend := b\<rparr>,
           [CallMulticast (fwd_DestAddresses fwdMsg) (fwd_Msg fwdMsg) (fwd_Code fwdMsg) False]))"

definition handleForwardMsg ::
  "'s proxy_env \<Rightarrow> 's proxyEngine \<Rightarrow> Peer option \<Rightarrow> byte list \<Rightarrow> handled \<times> 's proxyEngine \<times> proxy_call list" where
  "handleForwardMsg env p peer payload =
     (case proxiedValidator p of
        None \<Rightarrow>
          (case peer of
             None \<Rightarrow> (HandlerPanics, p, [])
           | Some pr \<Rightarrow> (Handled False None, p, []))
      | Some pv \<Rightarrow>
          (case peer of
             None \<Rightarrow> (HandlerPanics, p, [])
           | Some pr \<Rightarrow>
               if ID (peer_Node pv) \<noteq> ID (peer_Node pr) then (Handled False None, p, [])
               else
                 (case FromPayload env payload of
                    Inl err \<Rightarrow> (Handled True (Some err), p, [])
                  | Inr istMsg \<Rightarrow>
                      (case Decode env istMsg of
                         Inl err \<Rightarrow> (Handled True (Some err), p, [])
                       | Inr fwdMsg \<Rightarrow>
                           if fwd_Code fwdMsg = EnodeCertificateMsg env then
                             (case handleEnodeCertificateFromFwdMsg env (fwd_Msg fwdMsg) (backend p) of
                                (Some err, b) \<Rightarrow>
                                  (Handled True (Some err), p\<lparr>backend := b\<rparr>,
                                   [CallHandleEnodeCertificate (fwd_Msg fwdMsg)])
                              | (None, b) \<Rightarrow>
                                  (case forwardStep env (p\<lparr>backend := b\<rparr>) fwdMsg of
                                     (r, p', calls) \<Rightarrow>
                                       (r, p', CallHandleEnodeCertificate (fwd_Msg fwdMsg) # calls)))
                           else forwardStep env p fwdMsg))))"

section \<open>The send path: \<open>SendForwardMsg\<close>\<close>

text \<open>
  The proxy object of the proxied validator's side: \<open>peer\<close> is \<open>nil\<close> while the
  proxy is not connected. \<open>time.Time\<close> is kept as Unix seconds.
\<close>

record proxy =
  node :: enode
  externalNode :: enode
  peer :: "Peer option"
  disconnectTS :: int

text \<open>
  \<open>proxyToAddressesMap\<close> is a Go map from peers to address slices. The model keeps it as
  an association list with one entry per key (\<open>AList.update\<close> replaces the value of a
  key that is present); a value may be the \<open>nil\<close> slice.
\<close>

type_synonym proxyToAddresses = "(Peer option \<times> Address list option) list"

text \<open>
  The collaborators of the proxied validator engine, all outside this package:
  \<^item> \<open>GetValidatorAssignments\<close> of the proxy handler returns an error or a map from
    validator address to \<open>*proxy\<close> (possibly \<open>nil\<close>); the list it returns here is that
    map in the order in which \<open>range\<close> visits it;
  \<^item> \<open>rangeOrder\<close> is the order in which \<open>range\<close> visits \<open>proxyToAddressesMap\<close>,
    which Go leaves unspecified: the properties below are proved for every order;
  \<^item> \<open>EncodeToBytes\<close> is \<open>rlp.EncodeToBytes\<close> on a \<open>ForwardMessage\<close> and
    \<open>Payload\<close> is \<open>Message.Payload\<close>;
  \<^item> \<open>backend_Address\<close> is \<open>pv.backend.Address()\<close> and \<open>FwdMsg\<close> the constant
    \<open>istanbul.FwdMsg\<close>;
  \<^item> \<open>Unicast\<close> is what becomes of a transmission at the transport (\<open>None\<close>: sent,
    \<open>Some e\<close>: failed with \<open>e\<close>). The source calls \<open>pv.backend.Unicast\<close> as a
    statement and takes no result from it.
\<close>

record validator_env =
  GetValidatorAssignments :: "Address list \<Rightarrow> error + (Address \<times> proxy option) list"
  rangeOrder :: "proxyToAddresses \<Rightarrow> proxyToAddresses"
  EncodeToBytes :: "ForwardMessage \<Rightarrow> error + byte list"
  Payload :: "Message \<Rightarrow> error + byte list"
  backend_Address :: Address
  FwdMsg :: "64 word"
  Unicast :: "Peer \<Rightarrow> byte list \<Rightarrow> 64 word \<Rightarrow> error option"

text \<open>
  The calls \<open>SendForwardMsg\<close> makes to the proxy handler and to the transport, in order;
  a \<open>CallUnicast\<close> carries the peer, the payload, the message code and what the
  transport did with the transmission.
\<close>

datatype validator_call =
  CallGetValidatorAssignments "Address list"
| CallUnicast Peer "byte list" "64 word" "error option"

datatype returned = Panics | Returns "error option"

text \<open>Indexing a Go map gives the zero value, here the \<open>nil\<close> slice, for a missing key.\<close>

definition mapIndex :: "proxyToAddresses \<Rightarrow> Peer option \<Rightarrow> Address list option" where
  "mapIndex m k = (case map_of m k of None \<Rightarrow> None | Some v \<Rightarrow> v)"

text \<open>Go's \<open>append(s, x)\<close>, which accepts the \<open>nil\<close> slice.\<close>

definition append_slice :: "'a list option \<Rightarrow> 'a \<Rightarrow> 'a list option" where
  "append_slice s x = Some ((case s of None \<Rightarrow> [] | Some xs \<Rightarrow> xs) @ [x])"

text \<open>Lines 43-51: the loop that groups the validator addresses by connected proxy.\<close>

fun groupAssignments :: "(Address \<times> proxy option) list \<Rightarrow> proxyToAddresses \<Rightarrow> proxyToAddresses" where
  "groupAssignments [] m = m"
| "groupAssignments ((valAddress, None) # rest) m = groupAssignments rest m"
| "groupAssignments ((valAddress, Some px) # rest) m =
     (if peer px \<noteq> None then
        (let m1 = (if mapIndex m (peer px) = None then AList.update (peer px) (Some []) m else m)
         in groupAssignments rest
              (AList.update (peer px) (append_slice (mapIndex m1 (peer px)) valAddress) m1))
      else groupAssignments rest m)"

text \<open>Lines 58-60: every given peer becomes a key with the \<open>nil\<close> slice.\<close>

fun givenPeers :: "Peer option list \<Rightarrow> proxyToAddresses \<Rightarrow> proxyToAddresses" where
  "givenPeers [] m = m"
| "givenPeers (proxyPeer # rest) m = givenPeers rest (AList.update proxyPeer None m)"

text \<open>Lines 67-71: the payload for one proxy.\<close>

definition msgToForward ::
  "byte list option \<Rightarrow> (enode_ID \<rightharpoonup> byte list option) \<Rightarrow> Peer \<Rightarrow> byte list option" where
  "msgToForward payload proxySpecificPayloads proxyPeer =
     (case proxySpecificPayloads (ID (peer_Node proxyPeer)) of
        Some proxySpecificPayload \<Rightarrow> proxySpecificPayload
      | None \<Rightarrow> payload)"

text \<open>
  Lines 74-90: the envelope for one proxy, encoded and wrapped in an unsigned
  \<open>istanbul.Message\<close>. Either encoding step may fail.
\<close>

definition fwdMsgPayload ::
  "validator_env \<Rightarrow> 64 word \<Rightarrow> Address list option \<Rightarrow> byte list \<Rightarrow> error + byte list" where
  "fwdMsgPayload env ethMsgCode valAddresses msg =
     (case EncodeToBytes env
             \<lparr>fwd_Code = ethMsgCode, fwd_DestAddresses = valAddresses, fwd_Msg = msg\<rparr> of
        Inl err \<Rightarrow> Inl err
      | Inr fwdMsgBytes \<Rightarrow>
          Payload env
            \<lparr>msg_Code = FwdMsg env, msg_Msg = fwdMsgBytes, msg_Address = backend_Address env\<rparr>)"

text \<open>
  Lines 64-94: the loop over the map, in the order given. Calling \<open>Node()\<close> on a
  \<open>nil\<close> peer panics; an encoding error returns from the whole function; a proxy whose
  payload is \<open>nil\<close> is skipped.
\<close>

fun sendLoop ::
  "validator_env \<Rightarrow> 64 word \<Rightarrow> byte list option \<Rightarrow> (enode_ID \<rightharpoonup> byte list option) \<Rightarrow>
   proxyToAddresses \<Rightarrow> returned \<times> validator_call list" where
  "sendLoop env ethMsgCode payload psp [] = (Returns None, [])"
| "sendLoop env ethMsgCode payload psp ((None, valAddresses) # rest) = (Panics, [])"
| "sendLoop env ethMsgCode payload psp ((Some proxyPeer, valAddresses) # rest) =
     (case msgToForward payload psp proxyPeer of
        None \<Rightarrow> sendLoop env ethMsgCode payload psp rest
      | Some msg \<Rightarrow>
          (case fwdMsgPayload env ethMsgCode valAddresses msg of
             Inl err \<Rightarrow> (Returns (Some err), [])
           | Inr bytes \<Rightarrow>
               (case sendLoop env ethMsgCode payload psp rest of
                  (r, calls) \<Rightarrow>
                    (r, CallUnicast proxyPeer bytes (FwdMsg env)
                          (Unicast env proxyPeer bytes (FwdMsg env)) # calls))))"

definition SendForwardMsg ::
  "validator_env \<Rightarrow> Peer option list option \<Rightarrow> Address list \<Rightarrow> 64 word \<Rightarrow> byte list option \<Rightarrow>
   (enode_ID \<rightharpoonup> byte list option) \<Rightarrow> returned \<times> validator_call list" where
  "SendForwardMsg env proxyPeers validatorAddresses ethMsgCode payload proxySpecificPayloads =
     (case proxyPeers of
        None \<Rightarrow>
          (case GetValidatorAssignments env validatorAddresses of
             Inl err \<Rightarrow> (Returns (Some err), [CallGetValidatorAssignments validatorAddresses])
           | Inr valAssignments \<Rightarrow>
               (let proxyToAddressesMap = groupAssignments valAssignments [] in
                if length proxyToAddressesMap = 0
                then (Returns None, [CallGetValidatorAssignments validatorAddresses])
                else
                  (case sendLoop env ethMsgCode payload proxySpecificPayloads
                          (rangeOrder env proxyToAddressesMap) of
                     (r, calls) \<Rightarrow> (r, CallGetValidatorAssignments validatorAddresses # calls))))
      | Some peers \<Rightarrow>
          sendLoop env ethMsgCode payload proxySpecificPayloads
            (rangeOrder env (givenPeers peers [])))"

section \<open>The validator enode share message\<close>

text \<open>
  \<open>sharedValidatorEnode\<close> and \<open>valEnodesShareData\<close>. Go's \<open>uint\<close> is a 64-bit
  word and a Go string is a sequence of bytes, one \<open>char\<close> each. A slice that the code
  does not test against \<open>nil\<close> is a list.
\<close>

record sharedValidatorEnode =
  Address :: Address
  EnodeURL :: string
  Version :: "64 word"

record valEnodesShareData =
  ValEnodes :: "sharedValidatorEnode list"

subsection \<open>The codec\<close>

text \<open>
  Modelled from the spec: package \<open>rlp\<close>, whose \<open>Encode\<close> and \<open>Stream.Decode\<close> the
  methods \<open>EncodeRLP\<close> and \<open>DecodeRLP\<close> call, is not among the sources. The
  specification treats it as a length-prefixed, order-preserving, self-describing binary
  codec with a deterministic field order, and \<open>EncodeRLP\<close> names it as the Ethereum RLP
  format. \<open>putint\<close> writes a number as its big-endian bytes without leading zeros, and
  \<open>readint\<close> reads such bytes back.
\<close>

fun putint :: "nat \<Rightarrow> byte list" where
  "putint n = (if n = 0 then [] else putint (n div 256) @ [word_of_nat (n mod 256)])"

declare putint.simps [simp del]

definition readint :: "byte list \<Rightarrow> nat" where
  "readint bs = foldl (\<lambda>a b. 256 * a + unat b) 0 bs"

text \<open>
  Modelled from the spec: the header of a value of the absent codec. A content shorter
  than 56 bytes has its length in the tag byte; a longer one has the number of length
  bytes in the tag, and the length after it. Strings start at tag 128, lists at 192.
\<close>

definition encodeHeader :: "nat \<Rightarrow> nat \<Rightarrow> byte list" where
  "encodeHeader base sz =
     (if sz < 56 then [word_of_nat (base + sz)]
      else word_of_nat (base + 55 + length (putint sz)) # putint sz)"

text \<open>
  Modelled from the spec: a byte string of the absent codec. A single byte below 128 is
  its own encoding.
\<close>

definition encodeString :: "byte list \<Rightarrow> byte list" where
  "encodeString s =
     (if length s = 1 \<and> unat (hd s) < 128 then s else encodeHeader 128 (length s) @ s)"

text \<open>
  Modelled from the spec: a list of the absent codec, from the concatenated encodings
  of its elements.
\<close>

definition encodeList :: "byte list \<Rightarrow> byte list" where
  "encodeList content = encodeHeader 192 (length content) @ content"

text \<open>
  Modelled from the spec: how the absent codec writes the field types of the message. A
  \<open>[20]byte\<close> array is the string of its 20 bytes, a Go string the string of its bytes,
  an unsigned integer the string of its big-endian bytes without leading zeros.
\<close>

definition Address_Bytes :: "Address \<Rightarrow> byte list" where
  "Address_Bytes a = replicate (20 - length (putint (unat a))) 0 @ putint (unat a)"

definition BytesToAddress :: "byte list \<Rightarrow> Address" where
  "BytesToAddress bs = word_of_nat (readint bs)"

definition byte_of_char :: "char \<Rightarrow> byte" where
  "byte_of_char c = word_of_nat (of_char c)"

definition char_of_byte :: "byte \<Rightarrow> char" where
  "char_of_byte b = char_of (unat b)"

definition encodeAddress :: "Address \<Rightarrow> byte list" where
  "encodeAddress a = encodeString (Address_Bytes a)"

definition encodeText :: "string \<Rightarrow> byte list" where
  "encodeText s = encodeString (map byte_of_char s)"

definition encodeUint :: "64 word \<Rightarrow> byte list" where
  "encodeUint i = encodeString (putint (unat i))"

text \<open>
  Modelled from the spec: how the absent codec writes a struct (the list of its
  fields, in the order of declaration) and a slice (the list of its elements, in order).
\<close>

definition encode_sharedValidatorEnode :: "sharedValidatorEnode \<Rightarrow> byte list" where
  "encode_sharedValidatorEnode sve =
     encodeList (encodeAddress (Address sve) @ encodeText (EnodeURL sve) @ encodeUint (Version sve))"

definition encode_ValEnodes :: "sharedValidatorEnode list \<Rightarrow> byte list" where
  "encode_ValEnodes ves = encodeList (concat (map encode_sharedValidatorEnode ves))"

text \<open>
  Modelled from the spec: the errors of the absent codec and of the stream it reads.
\<close>

definition EOF :: error where
  "EOF = Error ''EOF''"

definition ErrUnexpectedEOF :: error where
  "ErrUnexpectedEOF = Error ''unexpected EOF''"

definition ErrCanonSize :: error where
  "ErrCanonSize = Error ''rlp: non-canonical size information''"

definition ErrCanonInt :: error where
  "ErrCanonInt = Error ''rlp: non-canonical integer format''"

definition ErrExpectedString :: error where
  "ErrExpectedString = Error ''rlp: expected String or Byte''"

definition ErrExpectedList :: error where
  "ErrExpectedList = Error ''rlp: expected List''"

definition ErrValueTooLarge :: error where
  "ErrValueTooLarge = Error ''rlp: value size exceeds available input length''"

definition errUintOverflow :: error where
  "errUintOverflow = Error ''rlp: uint overflow''"

definition ErrTooFewElements :: error where
  "ErrTooFewElements = Error ''rlp: too few elements''"

definition ErrTooManyElements :: error where
  "ErrTooManyElements = Error ''rlp: input list has too many elements''"

definition ErrStringTooShort :: error where
  "ErrStringTooShort = Error ''rlp: input string too short''"

definition ErrStringTooLong :: error where
  "ErrStringTooLong = Error ''rlp: input string too long''"

text \<open>
  Modelled from the spec: reading one value of the absent codec from the front of the
  input: its kind, its content and the input after it. A length that has leading zeros,
  or that would have fitted the tag byte, is refused, as is a content longer than the
  input.
\<close>

datatype Kind = Byte | String | List

definition readSize :: "nat \<Rightarrow> byte list \<Rightarrow> error + nat \<times> byte list" where
  "readSize n bs =
     (if length bs < n then Inl ErrUnexpectedEOF
      else if unat (hd (take n bs)) = 0 then Inl ErrCanonSize
      else if readint (take n bs) < 56 then Inl ErrCanonSize
      else Inr (readint (take n bs), drop n bs))"

definition readContent :: "Kind \<Rightarrow> nat \<Rightarrow> byte list \<Rightarrow> error + Kind \<times> byte list \<times> byte list" where
  "readContent k sz bs =
     (if length bs < sz then Inl ErrValueTooLarge else Inr (k, take sz bs, drop sz bs))"

fun readValue :: "byte list \<Rightarrow> error + Kind \<times> byte list \<times> byte list" where
  "readValue [] = Inl EOF"
| "readValue (b # bs) =
     (if unat b < 128 then Inr (Byte, [b], bs)
      else if unat b < 184 then readContent String (unat b - 128) bs
      else if unat b < 192 then
        (case readSize (unat b - 183) bs of
           Inl err \<Rightarrow> Inl err
         | Inr (sz, rest) \<Rightarrow> readContent String sz rest)
      else if unat b < 248 then readContent List (unat b - 192) bs
      else
        (case readSize (unat b - 247) bs of
           Inl err \<Rightarrow> Inl err
         | Inr (sz, rest) \<Rightarrow> readContent List sz rest))"

text \<open>
  Modelled from the spec: how the absent codec reads the field types of the message.
  Each decoder returns the value and the input after it. A one-byte string that should
  have been a single byte, an integer with a leading zero or wider than 64 bits, and an
  array whose string is not 20 bytes long are refused.
\<close>

definition decodeBytes :: "byte list \<Rightarrow> error + byte list \<times> byte list" where
  "decodeBytes bs =
     (case readValue bs of
        Inl err \<Rightarrow> Inl err
      | Inr (Byte, content, rest) \<Rightarrow> Inr (content, rest)
      | Inr (String, content, rest) \<Rightarrow>
          if length content = 1 \<and> unat (hd content) < 128 then Inl ErrCanonSize
          else Inr (content, rest)
      | Inr (List, content, rest) \<Rightarrow> Inl ErrExpectedString)"

definition decodeText :: "byte list \<Rightarrow> error + string \<times> byte list" where
  "decodeText bs =
     (case decodeBytes bs of
        Inl err \<Rightarrow> Inl err
      | Inr (content, rest) \<Rightarrow> Inr (map char_of_byte content, rest))"

definition decodeUint :: "byte list \<Rightarrow> error + 64 word \<times> byte list" where
  "decodeUint bs =
     (case readValue bs of
        Inl err \<Rightarrow> Inl err
      | Inr (Byte, content, rest) \<Rightarrow>
          if readint content = 0 then Inl ErrCanonInt
          else Inr (word_of_nat (readint content), rest)
      | Inr (String, content, rest) \<Rightarrow>
          if 8 < length content then Inl errUintOverflow
          else if content \<noteq> [] \<and> unat (hd content) = 0 then Inl ErrCanonInt
          else if length content = 1 \<and> unat (hd content) < 128 then Inl ErrCanonSize
          else Inr (word_of_nat (readint content), rest)
      | Inr (List, content, rest) \<Rightarrow> Inl ErrExpectedString)"

definition decodeAddress :: "byte list \<Rightarrow> error + Address \<times> byte list" where
  "decodeAddress bs =
     (case readValue bs of
        Inl err \<Rightarrow> Inl err
      | Inr (Byte, content, rest) \<Rightarrow> Inl ErrStringTooShort
      | Inr (String, content, rest) \<Rightarrow>
          if length content < 20 then Inl ErrStringTooShort
          else if 20 < length content then Inl ErrStringTooLong
          else Inr (BytesToAddress content, rest)
      | Inr (List, content, rest) \<Rightarrow> Inl ErrExpectedString)"

text \<open>
  Modelled from the spec: how the absent codec reads a struct and a slice. A struct is
  a list holding exactly its fields, in order; the end of the list where a field is due
  is the error of too few elements. A slice is a list whose elements are read until its
  content is used up.
\<close>

definition endOfList :: "error \<Rightarrow> error" where
  "endOfList err = (if err = EOF then ErrTooFewElements else err)"

definition decode_sharedValidatorEnode ::
  "byte list \<Rightarrow> error + sharedValidatorEnode \<times> byte list" where
  "decode_sharedValidatorEnode bs =
     (case readValue bs of
        Inl err \<Rightarrow> Inl err
      | Inr (List, content, rest) \<Rightarrow>
          (case decodeAddress content of
             Inl err \<Rightarrow> Inl (endOfList err)
           | Inr (a, content1) \<Rightarrow>
               (case decodeText content1 of
                  Inl err \<Rightarrow> Inl (endOfList err)
                | Inr (url, content2) \<Rightarrow>
                    (case decodeUint content2 of
                       Inl err \<Rightarrow> Inl (endOfList err)
                     | Inr (v, content3) \<Rightarrow>
                         if content3 \<noteq> [] then Inl ErrTooManyElements
                         else Inr (\<lparr>Address = a, EnodeURL = url, Version = v\<rparr>, rest))))
      | Inr (k, content, rest) \<Rightarrow> Inl ErrExpectedList)"

function decodeSliceElems :: "byte list \<Rightarrow> error + sharedValidatorEnode list" where
  "decodeSliceElems bs =
     (if bs = [] then Inr []
      else
        (case decode_sharedValidatorEnode bs of
           Inl err \<Rightarrow> Inl err
         | Inr (sve, rest) \<Rightarrow>
             (case decodeSliceElems rest of
                Inl err \<Rightarrow> Inl err
              | Inr sves \<Rightarrow> Inr (sve # sves))))"
  by pat_completeness auto
termination
proof (relation "measure length")
  show "wf (measure length)" by simp
next
  fix bs :: "byte list" and x sve rest
  assume "bs \<noteq> []" and dec: "decode_sharedValidatorEnode bs = Inr x" and x: "(sve, rest) = x"
  have content: "length (drop n cs) \<le> length cs" for n and cs :: "byte list"
    by simp
  have "length rest' < length bs'" if "readValue bs' = Inr (k, c, rest')" for bs' k c rest'
  proof (cases bs')
    case Nil
    with that show ?thesis by simp
  next
    case (Cons b tl)
    with that show ?thesis
      by (auto simp: readContent_def readSize_def less_Suc_eq_le
          split: if_splits sum.splits prod.splits intro: le_trans [OF content])
  qed
  moreover from dec x obtain k c where "readValue bs = Inr (k, c, rest)"
    by (auto simp: decode_sharedValidatorEnode_def split: sum.splits prod.splits Kind.splits if_splits)
  ultimately show "(rest, bs) \<in> measure length" by simp
qed

declare decodeSliceElems.simps [simp del]

definition decode_ValEnodes :: "byte list \<Rightarrow> error + sharedValidatorEnode list \<times> byte list" where
  "decode_ValEnodes bs =
     (case readValue bs of
        Inl err \<Rightarrow> Inl err
      | Inr (List, content, rest) \<Rightarrow>
          (case decodeSliceElems content of
             Inl err \<Rightarrow> Inl err
           | Inr ves \<Rightarrow> Inr (ves, rest))
      | Inr (k, content, rest) \<Rightarrow> Inl ErrExpectedList)"

subsection \<open>\<open>EncodeRLP\<close> and \<open>DecodeRLP\<close>\<close>

text \<open>
  \<open>EncodeRLP\<close> encodes the one-element list \<open>[]interface{}{sd.ValEnodes}\<close> and
  appends it to the writer, here a buffer. \<open>DecodeRLP\<close> decodes a struct with the single
  field \<open>ValEnodes\<close> from the front of the stream and stores the field in \<open>sd\<close>; on
  an error \<open>sd\<close> is left as it was.
\<close>

definition EncodeRLP :: "valEnodesShareData \<Rightarrow> byte list \<Rightarrow> error option \<times> byte list" where
  "EncodeRLP sd w = (None, w @ encodeList (encode_ValEnodes (ValEnodes sd)))"

definition DecodeRLP :: "valEnodesShareData \<Rightarrow> byte list \<Rightarrow> error option \<times> valEnodesShareData" where
  "DecodeRLP sd s =
     (case readValue s of
        Inl err \<Rightarrow> (Some err, sd)
      | Inr (List, content, rest) \<Rightarrow>
          (case decode_ValEnodes content of
             Inl err \<Rightarrow> (Some (endOfList err), sd)
           | Inr (ves, content1) \<Rightarrow>
               if content1 \<noteq> [] then (Some ErrTooManyElements, sd)
               else (None, sd\<lparr>ValEnodes := ves\<rparr>))
      | Inr (k, content, rest) \<Rightarrow> (Some ErrExpectedList, sd))"

text \<open>
  The invariant of the grouping loop: every key is a connected peer, every value a
  slice, and every address in it is assigned to a proxy connected through that peer.
\<close>

definition grouped :: "(Address \<times> proxy option) list \<Rightarrow> proxyToAddresses \<Rightarrow> bool" where
  "grouped asg m \<longleftrightarrow> (\<forall>(k, v) \<in> set m. \<exists>pp addrs. k = Some pp \<and> v = Some addrs \<and>
      (\<forall>a \<in> set addrs. \<exists>px. (a, Some px) \<in> set asg \<and> peer px = Some pp))"

section \<open>A concrete environment\<close>

text \<open>
  Two proxies, of which only the first is connected, and collaborators that are simple
  enough to evaluate: the envelope encoder writes the number of destination addresses in
  front of the inner message, the transport fails every transmission to the second
  peer, and \<open>range\<close> visits the map from its last entry to its first.
\<close>

definition peer1 :: Peer where
  "peer1 = Peer 1 (Node 101 ''enode://proxy1'')"

definition peer2 :: Peer where
  "peer2 = Peer 2 (Node 102 ''enode://proxy2'')"

definition proxy1 :: proxy where
  "proxy1 = \<lparr>node = peer_Node peer1, externalNode = Node 201 ''enode://external1'',
             peer = Some peer1, disconnectTS = 0\<rparr>"

definition proxy2 :: proxy where
  "proxy2 = \<lparr>node = peer_Node peer2, externalNode = Node 202 ''enode://external2'',
             peer = None, disconnectTS = 0\<rparr>"

definition venv :: validator_env where
  "venv = \<lparr>GetValidatorAssignments = (\<lambda>vals. Inr (zip vals [None, Some proxy2, Some proxy1])),
           rangeOrder = rev,
           EncodeToBytes = (\<lambda>fm. Inr (word_of_nat
              (case fwd_DestAddresses fm of None \<Rightarrow> 0 | Some as \<Rightarrow> length as) # fwd_Msg fm)),
           Payload = (\<lambda>m. Inr (msg_Msg m)),
           backend_Address = 169,
           FwdMsg = 20,
           Unicast = (\<lambda>p b c. if conn p = 2 then Some (Error ''write: broken pipe'') else None)\<rparr>"

definition no_overrides :: "enode_ID \<rightharpoonup> byte list option" where
  "no_overrides = Map.empty"

definition override2 :: "enode_ID \<rightharpoonup> byte list option" where
  "override2 = [ID (peer_Node peer2) \<mapsto> Some [9, 9]]"

text \<open>
  On the proxy's side the backend state counts the multicasts. A payload is its inner
  code followed by the inner message; an empty enode certificate is invalid, and the
  multicast of the message \<open>[13]\<close> fails.
\<close>

definition penv :: "nat proxy_env" where
  "penv = \<lparr>FromPayload = (\<lambda>bs. if bs = [] then Inl (Error ''EOF'')
              else Inr \<lparr>msg_Code = 20, msg_Msg = bs, msg_Address = 169\<rparr>),
           Decode = (\<lambda>m. case msg_Msg m of
                [] \<Rightarrow> Inl (Error ''rlp: value size exceeds available input size'')
              | c # rest \<Rightarrow>
                  if c = 0 then Inl (Error ''rlp: expected input list for istanbul.ForwardMessage'')
                  else Inr \<lparr>fwd_Code = (if c = 23 then 23 else 7),
                            fwd_DestAddresses = Some [161], fwd_Msg = rest\<rparr>),
           EnodeCertificateMsg = 23,
           handleEnodeCertificateFromFwdMsg =
             (\<lambda>bs s. (if bs = [] then Some (Error ''invalid enode certificate'') else None, s)),
           Multicast = (\<lambda>dest msg code flag s.
             (if msg = [13] then Some (Error ''multicast failed'') else None, Suc s))\<rparr>"

definition engine1 :: "nat proxyEngine" where
  "engine1 = \<lparr>proxiedValidator = Some peer1, backend = 0\<rparr>"

text \<open>A batch of two records, and the receiver it is decoded into.\<close>

definition batch1 :: valEnodesShareData where
  "batch1 = \<lparr>ValEnodes =
     [\<lparr>Address = 161, EnodeURL = ''enode://a@10.0.0.1:30303'', Version = 1024\<rparr>,
      \<lparr>Address = 162, EnodeURL = ''e'', Version = 0\<rparr>]\<rparr>"

definition batch0 :: valEnodesShareData where
  "batch0 = \<lparr>ValEnodes = []\<rparr>"

section \<open>Facts about the two loops of the send path\<close>

lemma update_cases: "(k', v') \<in> set (AList.update k v m) \<Longrightarrow> (k', v') = (k, v) \<or> (k', v') \<in> set m"
  by (induction m) (auto split: if_splits)

lemma mapIndex_Some: "mapIndex m k = Some l \<Longrightarrow> (k, Some l) \<in> set m"
  by (auto simp: mapIndex_def split: option.splits dest: map_of_SomeD)

lemma grouped_update:
  assumes "grouped asg m" and "\<forall>a \<in> set addrs. \<exists>px. (a, Some px) \<in> set asg \<and> peer px = Some pp"
  shows "grouped asg (AList.update (Some pp) (Some addrs) m)"
  using assms unfolding grouped_def by (fastforce dest: update_cases)

lemma groupAssignments_grouped:
  "grouped asg m \<Longrightarrow> set xs \<subseteq> set asg \<Longrightarrow> grouped asg (groupAssignments xs m)"
proof (induction xs m rule: groupAssignments.induct)
  case (1 m)
  then show ?case by simp
next
  case (2 valAddress rest m)
  then show ?case by simp
next
  case (3 valAddress px rest m)
  show ?case
  proof (cases "peer px")
    case None
    with 3 show ?thesis by simp
  next
    case (Some pp)
    define m1 where "m1 = (if mapIndex m (peer px) = None then AList.update (peer px) (Some []) m else m)"
    define m2 where "m2 = AList.update (peer px) (append_slice (mapIndex m1 (peer px)) valAddress) m1"
    have g1: "grouped asg m1"
      using "3.prems"(1) Some by (simp add: m1_def grouped_update)
    have here: "(valAddress, Some px) \<in> set asg"
      using "3.prems"(2) by simp
    have old: "\<forall>a \<in> set l. \<exists>px. (a, Some px) \<in> set asg \<and> peer px = Some pp"
      if "mapIndex m1 (Some pp) = Some l" for l
      using g1 mapIndex_Some [OF that] unfolding grouped_def by fastforce
    have new: "\<forall>a \<in> set ((case mapIndex m1 (Some pp) of None \<Rightarrow> [] | Some xs \<Rightarrow> xs) @ [valAddress]).
                 \<exists>px. (a, Some px) \<in> set asg \<and> peer px = Some pp"
    proof (cases "mapIndex m1 (Some pp)")
      case None
      then show ?thesis using here Some by auto
    next
      case (Some l)
      then show ?thesis using here \<open>peer px = Some pp\<close> old [OF Some] by auto
    qed
    have "grouped asg m2"
      unfolding m2_def Some append_slice_def by (rule grouped_update [OF g1 new])
    then show ?thesis using 3 Some by (simp add: m1_def m2_def Let_def)
  qed
qed

lemma keys_update: "fst ` set (AList.update k v m) = insert k (fst ` set m)"
  by (simp add: dom_update)

lemma groupAssignments_keys_sub:
  "k \<in> fst ` set (groupAssignments xs m) \<Longrightarrow>
     k \<in> fst ` set m \<or> (\<exists>a px. (a, Some px) \<in> set xs \<and> peer px = k \<and> k \<noteq> None)"
proof (induction xs m rule: groupAssignments.induct)
  case (1 m)
  then show ?case by simp
next
  case (2 valAddress rest m)
  then show ?case by fastforce
next
  case (3 valAddress px rest m)
  show ?case
  proof (cases "peer px = None")
    case True
    with 3 show ?thesis by fastforce
  next
    case False
    define m1 where "m1 = (if mapIndex m (peer px) = None then AList.update (peer px) (Some []) m else m)"
    define m2 where "m2 = AList.update (peer px) (append_slice (mapIndex m1 (peer px)) valAddress) m1"
    have k2: "fst ` set m2 = insert (peer px) (fst ` set m)"
      by (auto simp: m2_def m1_def keys_update)
    from "3.prems" False have "k \<in> fst ` set (groupAssignments rest m2)"
      by (simp add: m1_def m2_def Let_def)
    with "3.IH"(1) [OF _ m1_def] False
    have "k \<in> fst ` set m2 \<or> (\<exists>a px. (a, Some px) \<in> set rest \<and> peer px = k \<and> k \<noteq> None)"
      by (simp add: m2_def)
    then show ?thesis
    proof
      assume "k \<in> fst ` set m2"
      with k2 have "k = peer px \<or> k \<in> fst ` set m" by simp
      then show ?thesis
      proof
        assume "k = peer px"
        with False have "(valAddress, Some px) \<in> set ((valAddress, Some px) # rest) \<and> peer px = k \<and> k \<noteq> None"
          by simp
        then show ?thesis by blast
      qed simp
    next
      assume "\<exists>a px. (a, Some px) \<in> set rest \<and> peer px = k \<and> k \<noteq> None"
      then obtain a px0 where "(a, Some px0) \<in> set rest" "peer px0 = k" "k \<noteq> None" by blast
      then have "(a, Some px0) \<in> set ((valAddress, Some px) # rest) \<and> peer px0 = k \<and> k \<noteq> None"
        by simp
      then show ?thesis by blast
    qed
  qed
qed

lemma groupAssignments_keys_old:
  "k \<in> fst ` set m \<Longrightarrow> k \<in> fst ` set (groupAssignments xs m)"
proof (induction xs m rule: groupAssignments.induct)
  case (3 valAddress px rest m)
  show ?case
  proof (cases "peer px = None")
    case True
    with 3 show ?thesis by simp
  next
    case False
    define m1 where "m1 = (if mapIndex m (peer px) = None then AList.update (peer px) (Some []) m else m)"
    define m2 where "m2 = AList.update (peer px) (append_slice (mapIndex m1 (peer px)) valAddress) m1"
    have k2: "fst ` set m2 = insert (peer px) (fst ` set m)"
      by (auto simp: m2_def m1_def keys_update)
    with "3.prems" have "k \<in> fst ` set m2" by simp
    with "3.IH"(1) [OF _ m1_def] False have "k \<in> fst ` set (groupAssignments rest m2)"
      by (simp add: m2_def)
    with False show ?thesis by (simp add: m1_def m2_def Let_def)
  qed
qed simp_all

lemma groupAssignments_keys_new:
  "(a, Some px) \<in> set xs \<Longrightarrow> peer px \<noteq> None \<Longrightarrow> peer px \<in> fst ` set (groupAssignments xs m)"
proof (induction xs m rule: groupAssignments.induct)
  case (3 valAddress px' rest m)
  define m1 where "m1 = (if mapIndex m (peer px') = None then AList.update (peer px') (Some []) m else m)"
  define m2 where "m2 = AList.update (peer px') (append_slice (mapIndex m1 (peer px')) valAddress) m1"
  have k2: "fst ` set m2 = insert (peer px') (fst ` set m)"
    by (auto simp: m2_def m1_def keys_update)
  show ?case
  proof (cases "peer px' = None")
    case True
    with 3 show ?thesis by auto
  next
    case False
    have unfold: "groupAssignments ((valAddress, Some px') # rest) m = groupAssignments rest m2"
      using False by (simp add: m1_def m2_def Let_def)
    show ?thesis
    proof (cases "(a, Some px) \<in> set rest")
      case True
      with "3.IH"(1) [OF _ m1_def] False "3.prems" show ?thesis
        unfolding unfold by (simp add: m2_def)
    next
      case False
      with "3.prems" have "px = px'" by simp
      with k2 have "peer px \<in> fst ` set m2" by simp
      then show ?thesis unfolding unfold by (rule groupAssignments_keys_old)
    qed
  qed
qed simp_all

lemma givenPeers_keys: "fst ` set (givenPeers peers m) = fst ` set m \<union> set peers"
  by (induction peers m rule: givenPeers.induct) (auto simp: keys_update)

lemma givenPeers_nil:
  "\<forall>(k, v) \<in> set m. v = None \<Longrightarrow> (k, v) \<in> set (givenPeers peers m) \<Longrightarrow> v = None"
  by (induction peers m rule: givenPeers.induct) (fastforce dest: update_cases)+

lemma sendLoop_calls:
  "sendLoop env c payload psp m = (r, calls) \<Longrightarrow> call \<in> set calls \<Longrightarrow>
     \<exists>pp addrs msg b. (Some pp, addrs) \<in> set m \<and> msgToForward payload psp pp = Some msg \<and>
        fwdMsgPayload env c addrs msg = Inr b \<and>
        call = CallUnicast pp b (FwdMsg env) (Unicast env pp b (FwdMsg env))"
proof (induction env c payload psp m arbitrary: r calls rule: sendLoop.induct)
  case (1 env ethMsgCode payload psp)
  then show ?case by simp
next
  case (2 env ethMsgCode payload psp valAddresses rest)
  then show ?case by simp
next
  case (3 env ethMsgCode payload psp proxyPeer valAddresses rest)
  then show ?case
    by (fastforce split: option.splits sum.splits prod.splits)
qed

lemma sendLoop_all:
  assumes "\<forall>(k, v) \<in> set m. k \<noteq> None"
    and "\<forall>addrs msg. \<exists>b. fwdMsgPayload env c addrs msg = Inr b"
  shows "\<exists>calls. sendLoop env c payload psp m = (Returns None, calls) \<and>
     (\<forall>pp addrs msg. (Some pp, addrs) \<in> set m \<and> msgToForward payload psp pp = Some msg \<longrightarrow>
        (\<exists>b. fwdMsgPayload env c addrs msg = Inr b \<and>
           CallUnicast pp b (FwdMsg env) (Unicast env pp b (FwdMsg env)) \<in> set calls))"
  using assms
proof (induction env c payload psp m rule: sendLoop.induct)
  case (1 env ethMsgCode payload psp)
  then show ?case by simp
next
  case (2 env ethMsgCode payload psp valAddresses rest)
  then show ?case by simp
next
  case (3 env ethMsgCode payload psp proxyPeer valAddresses rest)
  from "3.prems" have rest: "\<forall>(k, v) \<in> set rest. k \<noteq> None" by simp
  note enc = "3.prems"(2)
  show ?case
  proof (cases "msgToForward payload psp proxyPeer")
    case None
    with "3.IH"(1) [OF None rest enc] show ?thesis by fastforce
  next
    case (Some msg)
    from enc obtain b where b: "fwdMsgPayload env ethMsgCode valAddresses msg = Inr b"
      by blast
    from "3.IH"(2) [OF Some b rest enc] obtain calls where
      calls: "sendLoop env ethMsgCode payload psp rest = (Returns None, calls)"
        "\<forall>pp addrs msg. (Some pp, addrs) \<in> set rest \<and> msgToForward payload psp pp = Some msg \<longrightarrow>
          (\<exists>b. fwdMsgPayload env ethMsgCode addrs msg = Inr b \<and>
             CallUnicast pp b (FwdMsg env) (Unicast env pp b (FwdMsg env)) \<in> set calls)"
      by blast
    show ?thesis using Some b calls by fastforce
  qed
qed


lemma order_set: "\<forall>m. mset (rangeOrder env m) = mset m \<Longrightarrow> set (rangeOrder env m) = set m"
  by (metis set_mset_mset)

lemma SendForwardMsg_calls:
  assumes "CallUnicast pp b c out \<in> set (snd (SendForwardMsg env proxyPeers vals code payload psp))"
  shows "\<exists>addrs msg. msgToForward payload psp pp = Some msg \<and>
           fwdMsgPayload env code addrs msg = Inr b \<and> c = FwdMsg env \<and>
           out = Unicast env pp b (FwdMsg env) \<and>
           (case proxyPeers of
              Some peers \<Rightarrow> (Some pp, addrs) \<in> set (rangeOrder env (givenPeers peers []))
            | None \<Rightarrow> (\<exists>asg. GetValidatorAssignments env vals = Inr asg \<and>
                 (Some pp, addrs) \<in> set (rangeOrder env (groupAssignments asg []))))"
proof (cases proxyPeers)
  case (Some peers)
  obtain r calls where
    sl: "sendLoop env code payload psp (rangeOrder env (givenPeers peers [])) = (r, calls)"
    by force
  with assms Some have "CallUnicast pp b c out \<in> set calls"
    by (simp add: SendForwardMsg_def)
  from sendLoop_calls [OF sl this] Some show ?thesis by auto
next
  case None
  show ?thesis
  proof (cases "GetValidatorAssignments env vals")
    case (Inl err)
    with assms None show ?thesis by (simp add: SendForwardMsg_def)
  next
    case (Inr asg)
    obtain r calls where
      sl: "sendLoop env code payload psp (rangeOrder env (groupAssignments asg [])) = (r, calls)"
      by force
    with assms None Inr have "CallUnicast pp b c out \<in> set calls"
      by (simp add: SendForwardMsg_def Let_def split: if_splits)
    from sendLoop_calls [OF sl this] None Inr show ?thesis by auto
  qed
qed

section \<open>Properties of the receive path\<close>

text \<open>
  C1. A forward message from a peer whose node id differs from that of the registered
  proxied validator, or arriving while no proxied validator is registered, is ignored:
  the handler returns \<open>(false, nil)\<close>, calls no collaborator (so no multicast) and
  leaves the engine's state as it was. The message comes from a peer: the sender is not
  \<open>nil\<close>.
\<close>

theorem handleForwardMsg_unauthorized:
  assumes "sender = Some pr"
    and "proxiedValidator p = None \<or>
         (\<exists>pv. proxiedValidator p = Some pv \<and> ID (peer_Node pv) \<noteq> ID (peer_Node pr))"
  shows "handleForwardMsg env p sender payload = (Handled False None, p, [])"
  using assms by (auto simp: handleForwardMsg_def)

theorem handleForwardMsg_unauthorized_witness:
  "ID (peer_Node peer1) \<noteq> ID (peer_Node peer2) \<and>
   proxiedValidator engine1 = Some peer1 \<and>
   handleForwardMsg penv engine1 (Some peer2) [7, 1, 2] = (Handled False None, engine1, []) \<and>
   proxiedValidator (engine1\<lparr>proxiedValidator := None\<rparr>) = None \<and>
   handleForwardMsg penv (engine1\<lparr>proxiedValidator := None\<rparr>) (Some peer1) [7, 1, 2] =
     (Handled False None, engine1\<lparr>proxiedValidator := None\<rparr>, [])"
  using handleForwardMsg_unauthorized [of "Some peer2" peer2 engine1 penv "[7, 1, 2]"]
    handleForwardMsg_unauthorized
      [of "Some peer1" peer1 "engine1\<lparr>proxiedValidator := None\<rparr>" penv "[7, 1, 2]"]
  by (simp add: engine1_def peer1_def peer2_def)

text \<open>
  A \<open>nil\<close> sender never gets that far: whether or not a proxied validator is
  registered, the handler panics on \<open>peer.Node()\<close> before it returns.
\<close>

lemma handleForwardMsg_nil_peer:
  "handleForwardMsg env p None payload = (HandlerPanics, p, [])"
  by (simp add: handleForwardMsg_def split: option.splits)

text \<open>
  C3. A forward message from the registered proxied validator whose payload decodes as a
  message is reported as handled, whatever becomes of it afterwards: the handler returns
  \<open>handled = true\<close> with the error of the later steps, \<open>nil\<close> or not.
\<close>

theorem handleForwardMsg_handled:
  assumes "proxiedValidator p = Some pv" and "sender = Some pr"
    and "ID (peer_Node pv) = ID (peer_Node pr)"
    and "FromPayload env payload = Inr istMsg"
  shows "\<exists>err. fst (handleForwardMsg env p sender payload) = Handled True err"
  using assms
  by (auto simp: handleForwardMsg_def forwardStep_def split: sum.splits prod.splits option.splits)

theorem handleForwardMsg_handled_witness:
  "proxiedValidator engine1 = Some peer1 \<and>
   FromPayload penv [7, 1, 2] = Inr \<lparr>msg_Code = 20, msg_Msg = [7, 1, 2], msg_Address = 169\<rparr> \<and>
   FromPayload penv [0] = Inr \<lparr>msg_Code = 20, msg_Msg = [0], msg_Address = 169\<rparr> \<and>
   fst (handleForwardMsg penv engine1 (Some peer1) [7, 1, 2]) = Handled True None \<and>
   fst (handleForwardMsg penv engine1 (Some peer1) [0]) =
     Handled True (Some (Error ''rlp: expected input list for istanbul.ForwardMessage''))"
  using handleForwardMsg_handled [of engine1 peer1 "Some peer1" peer1 penv "[7, 1, 2]"]
    handleForwardMsg_handled [of engine1 peer1 "Some peer1" peer1 penv "[0]"]
  by (simp add: engine1_def penv_def handleForwardMsg_def forwardStep_def)

text \<open>
  C4. On the success path the handler calls \<open>Multicast\<close> once, with the destination
  addresses, the inner message and the inner code of the decoded envelope, unchanged,
  and with the flag \<open>false\<close>; it returns \<open>handled = true\<close> and the error that
  \<open>Multicast\<close> returned, \<open>nil\<close> or not. The only call before it is the certificate
  handling, when the inner code asks for it.
\<close>

theorem handleForwardMsg_multicast:
  assumes "proxiedValidator p = Some pv" and "sender = Some pr"
    and "ID (peer_Node pv) = ID (peer_Node pr)"
    and "FromPayload env payload = Inr istMsg"
    and "Decode env istMsg = Inr fwdMsg"
    and "fwd_Code fwdMsg = EnodeCertificateMsg env \<longrightarrow>
           fst (handleEnodeCertificateFromFwdMsg env (fwd_Msg fwdMsg) (backend p)) = None"
    and "b = (if fwd_Code fwdMsg = EnodeCertificateMsg env
              then snd (handleEnodeCertificateFromFwdMsg env (fwd_Msg fwdMsg) (backend p))
              else backend p)"
    and "multicast = Multicast env (fwd_DestAddresses fwdMsg) (fwd_Msg fwdMsg) (fwd_Code fwdMsg) False b"
  shows "handleForwardMsg env p sender payload =
           (Handled True (fst multicast), p\<lparr>backend := snd multicast\<rparr>,
            (if fwd_Code fwdMsg = EnodeCertificateMsg env
             then [CallHandleEnodeCertificate (fwd_Msg fwdMsg)] else []) @
            [CallMulticast (fwd_DestAddresses fwdMsg) (fwd_Msg fwdMsg) (fwd_Code fwdMsg) False])"
  using assms
  by (auto simp: handleForwardMsg_def forwardStep_def split: sum.splits prod.splits option.splits)

theorem handleForwardMsg_multicast_witness:
  "proxiedValidator engine1 = Some peer1 \<and>
   handleForwardMsg penv engine1 (Some peer1) [7, 1, 2] =
     (Handled True None, engine1\<lparr>backend := 1\<rparr>, [CallMulticast (Some [161]) [1, 2] 7 False]) \<and>
   handleForwardMsg penv engine1 (Some peer1) [7, 13] =
     (Handled True (Some (Error ''multicast failed'')), engine1\<lparr>backend := 1\<rparr>,
      [CallMulticast (Some [161]) [13] 7 False])"
  using handleForwardMsg_multicast [of engine1 peer1 "Some peer1" peer1 penv "[7, 1, 2]"
      "\<lparr>msg_Code = 20, msg_Msg = [7, 1, 2], msg_Address = 169\<rparr>"
      "\<lparr>fwd_Code = 7, fwd_DestAddresses = Some [161], fwd_Msg = [1, 2]\<rparr>" 0
      "(None, 1)"]
    handleForwardMsg_multicast [of engine1 peer1 "Some peer1" peer1 penv "[7, 13]"
      "\<lparr>msg_Code = 20, msg_Msg = [7, 13], msg_Address = 169\<rparr>"
      "\<lparr>fwd_Code = 7, fwd_DestAddresses = Some [161], fwd_Msg = [13]\<rparr>" 0
      "(Some (Error ''multicast failed''), 1)"]
  by (simp add: engine1_def penv_def)

text \<open>
  C5. When the sender is the registered proxied validator and the payload does not
  decode, as a message or as the \<open>ForwardMessage\<close> inside it, the handler
  returns \<open>handled = true\<close> with the decoding error, and it calls no collaborator: there
  is no multicast and no change of state.
\<close>

theorem handleForwardMsg_decode_error:
  assumes "proxiedValidator p = Some pv" and "sender = Some pr"
    and "ID (peer_Node pv) = ID (peer_Node pr)"
    and "FromPayload env payload = Inl e \<or>
         (\<exists>istMsg. FromPayload env payload = Inr istMsg \<and> Decode env istMsg = Inl e)"
  shows "handleForwardMsg env p sender payload = (Handled True (Some e), p, [])"
  using assms by (auto simp: handleForwardMsg_def)

theorem handleForwardMsg_decode_error_witness:
  "proxiedValidator engine1 = Some peer1 \<and>
   FromPayload penv [] = Inl (Error ''EOF'') \<and>
   handleForwardMsg penv engine1 (Some peer1) [] = (Handled True (Some (Error ''EOF'')), engine1, []) \<and>
   handleForwardMsg penv engine1 (Some peer1) [0] =
     (Handled True (Some (Error ''rlp: expected input list for istanbul.ForwardMessage'')),
      engine1, [])"
  using handleForwardMsg_decode_error [of engine1 peer1 "Some peer1" peer1 penv "[]" "Error ''EOF''"]
    handleForwardMsg_decode_error [of engine1 peer1 "Some peer1" peer1 penv "[0]"
      "Error ''rlp: expected input list for istanbul.ForwardMessage''"]
  by (simp add: engine1_def penv_def)

text \<open>
  C6. When the inner code is the enode-certificate code, the handler runs the
  certificate handling first. If that fails, the handler returns \<open>handled = true\<close>
  with its error and the trace ends there, with no call of \<open>Multicast\<close>; if it
  succeeds, the multicast follows it.
\<close>

theorem handleForwardMsg_invalid_certificate:
  assumes "proxiedValidator p = Some pv" and "sender = Some pr"
    and "ID (peer_Node pv) = ID (peer_Node pr)"
    and "FromPayload env payload = Inr istMsg"
    and "Decode env istMsg = Inr fwdMsg"
    and "fwd_Code fwdMsg = EnodeCertificateMsg env"
    and "handleEnodeCertificateFromFwdMsg env (fwd_Msg fwdMsg) (backend p) = (res, b)"
  shows "case res of
           Some e \<Rightarrow>
             handleForwardMsg env p sender payload =
               (Handled True (Some e), p\<lparr>backend := b\<rparr>,
                [CallHandleEnodeCertificate (fwd_Msg fwdMsg)])
         | None \<Rightarrow>
             snd (snd (handleForwardMsg env p sender payload)) =
               [CallHandleEnodeCertificate (fwd_Msg fwdMsg),
                CallMulticast (fwd_DestAddresses fwdMsg) (fwd_Msg fwdMsg) (fwd_Code fwdMsg) False]"
  using assms
  by (auto simp: handleForwardMsg_def forwardStep_def split: sum.splits prod.splits option.splits)

theorem handleForwardMsg_invalid_certificate_witness:
  "proxiedValidator engine1 = Some peer1 \<and>
   handleForwardMsg penv engine1 (Some peer1) [23] =
     (Handled True (Some (Error ''invalid enode certificate'')), engine1,
      [CallHandleEnodeCertificate []]) \<and>
   snd (snd (handleForwardMsg penv engine1 (Some peer1) [23, 5])) =
     [CallHandleEnodeCertificate [5], CallMulticast (Some [161]) [5] 23 False]"
  using handleForwardMsg_invalid_certificate [of engine1 peer1 "Some peer1" peer1 penv "[23]"
      "\<lparr>msg_Code = 20, msg_Msg = [23], msg_Address = 169\<rparr>"
      "\<lparr>fwd_Code = 23, fwd_DestAddresses = Some [161], fwd_Msg = []\<rparr>"
      "Some (Error ''invalid enode certificate'')" 0]
    handleForwardMsg_invalid_certificate [of engine1 peer1 "Some peer1" peer1 penv "[23, 5]"
      "\<lparr>msg_Code = 20, msg_Msg = [23, 5], msg_Address = 169\<rparr>"
      "\<lparr>fwd_Code = 23, fwd_DestAddresses = Some [161], fwd_Msg = [5]\<rparr>"
      None 0]
  by (simp add: engine1_def penv_def)

section \<open>Properties of the send path\<close>

text \<open>
  C2, as the specification states it: when one of several transmissions fails, the
  others are still attempted and the call returns the first error. The second half does
  not hold. With two proxies given, the transmission to \<open>peer2\<close> fails at the
  transport and the one to \<open>peer1\<close> is made all the same, but the call returns
  \<open>nil\<close>: \<open>Unicast\<close> is called as a statement and nothing it reports reaches the
  caller.
\<close>

theorem SendForwardMsg_failed_transmission_returns_nil:
  "SendForwardMsg venv (Some [Some peer1, Some peer2]) [] 7 (Some [1, 2, 3]) no_overrides =
     (Returns None,
      [CallUnicast peer2 [0, 1, 2, 3] 20 (Some (Error ''write: broken pipe'')),
       CallUnicast peer1 [0, 1, 2, 3] 20 None])"
  by (simp add: SendForwardMsg_def venv_def peer1_def peer2_def msgToForward_def
      fwdMsgPayload_def no_overrides_def)

text \<open>
  C2, amended. Whatever the transport does with each transmission, a failure of one
  neither stops nor prevents the others, and none is reported: as long as every envelope
  encodes and no given peer is \<open>nil\<close>, the call returns \<open>nil\<close> and has called
  \<open>Unicast\<close> for every proxy whose payload is not \<open>nil\<close>. This holds for the proxies
  given by the caller and for those found through the validator assignments.
\<close>

theorem SendForwardMsg_attempts_every_relay:
  assumes "\<forall>m. mset (rangeOrder env m) = mset m"
    and "\<forall>addrs msg. \<exists>b. fwdMsgPayload env code addrs msg = Inr b"
  shows "(None \<notin> set peers \<longrightarrow>
           (\<exists>calls. SendForwardMsg env (Some peers) vals code payload psp = (Returns None, calls) \<and>
              (\<forall>pp msg. Some pp \<in> set peers \<and> msgToForward payload psp pp = Some msg \<longrightarrow>
                 (\<exists>b. CallUnicast pp b (FwdMsg env) (Unicast env pp b (FwdMsg env)) \<in> set calls)))) \<and>
         (GetValidatorAssignments env vals = Inr asg \<longrightarrow>
           (\<exists>calls. SendForwardMsg env None vals code payload psp = (Returns None, calls) \<and>
              (\<forall>a px pp msg. (a, Some px) \<in> set asg \<and> peer px = Some pp \<and>
                   msgToForward payload psp pp = Some msg \<longrightarrow>
                 (\<exists>b. CallUnicast pp b (FwdMsg env) (Unicast env pp b (FwdMsg env)) \<in> set calls))))"
proof (intro conjI impI)
  assume nonnil: "None \<notin> set peers"
  let ?m = "rangeOrder env (givenPeers peers [])"
  have keys: "fst ` set ?m = set peers"
    using givenPeers_keys [of peers "[]"] order_set [OF assms(1)] by simp
  with nonnil have "\<forall>(k, v) \<in> set ?m. k \<noteq> None" by force
  from sendLoop_all [OF this assms(2), of payload psp] obtain calls where
    calls: "sendLoop env code payload psp ?m = (Returns None, calls)"
      "\<forall>pp addrs msg. (Some pp, addrs) \<in> set ?m \<and> msgToForward payload psp pp = Some msg \<longrightarrow>
          (\<exists>b. fwdMsgPayload env code addrs msg = Inr b \<and>
             CallUnicast pp b (FwdMsg env) (Unicast env pp b (FwdMsg env)) \<in> set calls)"
    by blast
  have "\<exists>b. CallUnicast pp b (FwdMsg env) (Unicast env pp b (FwdMsg env)) \<in> set calls"
    if "Some pp \<in> set peers" "msgToForward payload psp pp = Some msg" for pp msg
  proof -
    from that(1) keys obtain addrs where "(Some pp, addrs) \<in> set ?m" by force
    with calls(2) that(2) show ?thesis by blast
  qed
  with calls(1)
  show "\<exists>calls. SendForwardMsg env (Some peers) vals code payload psp = (Returns None, calls) \<and>
          (\<forall>pp msg. Some pp \<in> set peers \<and> msgToForward payload psp pp = Some msg \<longrightarrow>
             (\<exists>b. CallUnicast pp b (FwdMsg env) (Unicast env pp b (FwdMsg env)) \<in> set calls))"
    by (auto simp: SendForwardMsg_def)
next
  assume gva: "GetValidatorAssignments env vals = Inr asg"
  let ?g = "groupAssignments asg []"
  let ?m = "rangeOrder env ?g"
  have "grouped asg ?g"
    by (rule groupAssignments_grouped) (simp_all add: grouped_def)
  then have "\<forall>(k, v) \<in> set ?m. k \<noteq> None"
    unfolding grouped_def order_set [OF assms(1)] by fastforce
  from sendLoop_all [OF this assms(2), of payload psp] obtain calls where
    calls: "sendLoop env code payload psp ?m = (Returns None, calls)"
      "\<forall>pp addrs msg. (Some pp, addrs) \<in> set ?m \<and> msgToForward payload psp pp = Some msg \<longrightarrow>
          (\<exists>b. fwdMsgPayload env code addrs msg = Inr b \<and>
             CallUnicast pp b (FwdMsg env) (Unicast env pp b (FwdMsg env)) \<in> set calls)"
    by blast
  have sent: "\<exists>b. CallUnicast pp b (FwdMsg env) (Unicast env pp b (FwdMsg env)) \<in> set calls"
    if "(a, Some px) \<in> set asg" "peer px = Some pp" "msgToForward payload psp pp = Some msg"
    for a px pp msg
  proof -
    from groupAssignments_keys_new [OF that(1), of "[]"] that(2)
    have "Some pp \<in> fst ` set ?m" by (simp add: order_set [OF assms(1)])
    then obtain addrs where "(Some pp, addrs) \<in> set ?m" by force
    with calls(2) that(3) show ?thesis by blast
  qed
  show "\<exists>calls. SendForwardMsg env None vals code payload psp = (Returns None, calls) \<and>
          (\<forall>a px pp msg. (a, Some px) \<in> set asg \<and> peer px = Some pp \<and>
               msgToForward payload psp pp = Some msg \<longrightarrow>
             (\<exists>b. CallUnicast pp b (FwdMsg env) (Unicast env pp b (FwdMsg env)) \<in> set calls))"
  proof (cases "?g = []")
    case True
    have "peer px = None" if "(a, Some px) \<in> set asg" for a px
      using groupAssignments_keys_new [OF that, of "[]"] True by (cases "peer px") auto
    with gva True show ?thesis by (auto simp: SendForwardMsg_def)
  next
    case False
    with gva calls(1) sent show ?thesis
      by (auto simp: SendForwardMsg_def)
  qed
qed

theorem SendForwardMsg_attempts_every_relay_witness:
  "(\<forall>m. mset (rangeOrder venv m) = mset m) \<and>
   (\<forall>addrs msg. \<exists>b. fwdMsgPayload venv 7 addrs msg = Inr b) \<and>
   None \<notin> set [Some peer1, Some peer2] \<and>
   (\<exists>calls. SendForwardMsg venv (Some [Some peer1, Some peer2]) [] 7 (Some [1, 2, 3]) no_overrides =
        (Returns None, calls) \<and>
      (\<exists>b. CallUnicast peer1 b 20 None \<in> set calls) \<and>
      (\<exists>b. CallUnicast peer2 b 20 (Some (Error ''write: broken pipe'')) \<in> set calls))"
proof -
  have h1: "\<forall>m. mset (rangeOrder venv m) = mset m" by (simp add: venv_def)
  have h2: "\<forall>addrs msg. \<exists>b. fwdMsgPayload venv 7 addrs msg = Inr b"
    by (simp add: venv_def fwdMsgPayload_def)
  have h3: "None \<notin> set [Some peer1, Some peer2]" by simp
  from SendForwardMsg_attempts_every_relay
    [OF h1 h2, of "[Some peer1, Some peer2]" "[]" "Some [1, 2, 3]" no_overrides] h3
  obtain calls where
    c: "SendForwardMsg venv (Some [Some peer1, Some peer2]) [] 7 (Some [1, 2, 3]) no_overrides =
          (Returns None, calls)"
       "\<forall>pp msg. Some pp \<in> set [Some peer1, Some peer2] \<and>
           msgToForward (Some [1, 2, 3]) no_overrides pp = Some msg \<longrightarrow>
          (\<exists>b. CallUnicast pp b (FwdMsg venv) (Unicast venv pp b (FwdMsg venv)) \<in> set calls)"
    by blast
  from c(2) [rule_format, of peer1 "[1, 2, 3]"] c(2) [rule_format, of peer2 "[1, 2, 3]"]
  have "(\<exists>b. CallUnicast peer1 b 20 None \<in> set calls) \<and>
        (\<exists>b. CallUnicast peer2 b 20 (Some (Error ''write: broken pipe'')) \<in> set calls)"
    by (simp add: msgToForward_def venv_def peer1_def peer2_def no_overrides_def)
  with h1 h2 h3 c(1) show ?thesis by blast
qed

text \<open>
  C7. With no proxies given, an address for which the assignments name no proxy, or a
  proxy that is not connected, is left out without an error: every envelope handed to
  \<open>Unicast\<close> lists only addresses assigned to a proxy connected through the receiving
  peer; when no address has a connected proxy the call returns \<open>nil\<close> and makes no
  transmission; and whenever the envelopes encode the call returns \<open>nil\<close>, however
  many addresses were left out.
\<close>

theorem SendForwardMsg_unassigned_omitted:
  assumes order: "\<forall>m. mset (rangeOrder env m) = mset m"
    and gva: "GetValidatorAssignments env vals = Inr asg"
    and run: "SendForwardMsg env None vals code payload psp = (r, calls)"
  shows "(\<forall>pp b c out. CallUnicast pp b c out \<in> set calls \<longrightarrow>
            (\<exists>addrs msg. fwdMsgPayload env code (Some addrs) msg = Inr b \<and>
               (\<forall>a \<in> set addrs. \<exists>px. (a, Some px) \<in> set asg \<and> peer px = Some pp))) \<and>
         ((\<forall>a px. (a, Some px) \<in> set asg \<longrightarrow> peer px = None) \<longrightarrow>
            r = Returns None \<and> calls = [CallGetValidatorAssignments vals]) \<and>
         ((\<forall>addrs msg. \<exists>b. fwdMsgPayload env code addrs msg = Inr b) \<longrightarrow> r = Returns None)"
proof -
  have g: "grouped asg (groupAssignments asg [])"
    by (rule groupAssignments_grouped) (simp_all add: grouped_def)
  have one: "\<exists>addrs msg. fwdMsgPayload env code (Some addrs) msg = Inr b \<and>
               (\<forall>a \<in> set addrs. \<exists>px. (a, Some px) \<in> set asg \<and> peer px = Some pp)"
    if "CallUnicast pp b c out \<in> set calls" for pp b c out
  proof -
    from that run
    have "CallUnicast pp b c out \<in> set (snd (SendForwardMsg env None vals code payload psp))"
      by simp
    from SendForwardMsg_calls [OF this] gva obtain addrs msg where
      e: "fwdMsgPayload env code addrs msg = Inr b"
         "(Some pp, addrs) \<in> set (groupAssignments asg [])"
      by (auto simp: order_set [OF order])
    from g e(2) obtain l where "addrs = Some l"
      "\<forall>a \<in> set l. \<exists>px. (a, Some px) \<in> set asg \<and> peer px = Some pp"
      unfolding grouped_def by fastforce
    with e(1) show ?thesis by blast
  qed
  have two: "r = Returns None \<and> calls = [CallGetValidatorAssignments vals]"
    if none: "\<forall>a px. (a, Some px) \<in> set asg \<longrightarrow> peer px = None"
  proof -
    have "groupAssignments asg [] = []"
    proof (rule ccontr)
      assume "groupAssignments asg [] \<noteq> []"
      then obtain k where "k \<in> fst ` set (groupAssignments asg [])"
        by (cases "groupAssignments asg []") auto
      from groupAssignments_keys_sub [OF this] none show False by auto
    qed
    with gva run show ?thesis by (simp add: SendForwardMsg_def)
  qed
  have three: "r = Returns None"
    if enc: "\<forall>addrs msg. \<exists>b. fwdMsgPayload env code addrs msg = Inr b"
  proof -
    from g have "\<forall>(k, v) \<in> set (rangeOrder env (groupAssignments asg [])). k \<noteq> None"
      unfolding grouped_def order_set [OF order] by fastforce
    from sendLoop_all [OF this enc, of payload psp] gva run
    show ?thesis
      by (auto simp: SendForwardMsg_def Let_def split: if_splits)
  qed
  from one two three show ?thesis by blast
qed

theorem SendForwardMsg_unassigned_omitted_witness:
  "(\<forall>m. mset (rangeOrder venv m) = mset m) \<and>
   GetValidatorAssignments venv [161, 162] = Inr [(161, None), (162, Some proxy2)] \<and>
   peer proxy2 = None \<and>
   SendForwardMsg venv None [161, 162] 7 (Some [1, 2, 3]) no_overrides =
     (Returns None, [CallGetValidatorAssignments [161, 162]]) \<and>
   SendForwardMsg venv None [161, 162, 163] 7 (Some [1, 2, 3]) no_overrides =
     (Returns None,
      [CallGetValidatorAssignments [161, 162, 163], CallUnicast peer1 [1, 1, 2, 3] 20 None]) \<and>
   fwdMsgPayload venv 7 (Some [163]) [1, 2, 3] = Inr [1, 1, 2, 3]"
proof -
  have h1: "\<forall>m. mset (rangeOrder venv m) = mset m" by (simp add: venv_def)
  have h2: "GetValidatorAssignments venv [161, 162] =
              Inr [(161, None), (162, Some proxy2)]"
    by (simp add: venv_def)
  have h3: "peer proxy2 = None" by (simp add: proxy2_def)
  obtain r calls where
    run: "SendForwardMsg venv None [161, 162] 7 (Some [1, 2, 3]) no_overrides = (r, calls)"
    by force
  from SendForwardMsg_unassigned_omitted [OF h1 h2 run] h3
  have "r = Returns None \<and> calls = [CallGetValidatorAssignments [161, 162]]"
    by simp
  with run have first:
    "SendForwardMsg venv None [161, 162] 7 (Some [1, 2, 3]) no_overrides =
       (Returns None, [CallGetValidatorAssignments [161, 162]])"
    by simp
  have second:
    "SendForwardMsg venv None [161, 162, 163] 7 (Some [1, 2, 3]) no_overrides =
       (Returns None,
        [CallGetValidatorAssignments [161, 162, 163],
         CallUnicast peer1 [1, 1, 2, 3] 20 None])"
    by (simp add: SendForwardMsg_def venv_def proxy1_def proxy2_def peer1_def mapIndex_def
        append_slice_def msgToForward_def fwdMsgPayload_def no_overrides_def)
  have third: "fwdMsgPayload venv 7 (Some [163]) [1, 2, 3] = Inr [1, 1, 2, 3]"
    by (simp add: venv_def fwdMsgPayload_def)
  from h1 h2 h3 first second third show ?thesis by blast
qed

text \<open>
  C9. Every payload handed to \<open>Unicast\<close> for a proxy is the encoding of an envelope
  whose inner message is the entry of \<open>proxySpecificPayloads\<close> for that proxy's node
  id when the map has one, and the shared \<open>payload\<close> argument otherwise.
\<close>

theorem SendForwardMsg_payload_choice:
  assumes "CallUnicast pp b c out \<in> set (snd (SendForwardMsg env proxyPeers vals code payload psp))"
  shows "\<exists>addrs msg. fwdMsgPayload env code addrs msg = Inr b \<and>
           (case psp (ID (peer_Node pp)) of
              Some proxySpecificPayload \<Rightarrow> proxySpecificPayload = Some msg
            | None \<Rightarrow> payload = Some msg)"
  using SendForwardMsg_calls [OF assms] unfolding msgToForward_def
  by (fastforce split: option.splits)

theorem SendForwardMsg_payload_choice_witness:
  "CallUnicast peer2 [0, 9, 9] 20 (Some (Error ''write: broken pipe''))
     \<in> set (snd (SendForwardMsg venv (Some [Some peer1, Some peer2]) [] 7 (Some [1, 2, 3]) override2)) \<and>
   CallUnicast peer1 [0, 1, 2, 3] 20 None
     \<in> set (snd (SendForwardMsg venv (Some [Some peer1, Some peer2]) [] 7 (Some [1, 2, 3]) override2)) \<and>
   override2 (ID (peer_Node peer2)) = Some (Some [9, 9]) \<and>
   override2 (ID (peer_Node peer1)) = None \<and>
   (\<exists>addrs. fwdMsgPayload venv 7 addrs [9, 9] = Inr [0, 9, 9]) \<and>
   (\<exists>addrs. fwdMsgPayload venv 7 addrs [1, 2, 3] = Inr [0, 1, 2, 3])"
proof -
  let ?calls = "snd (SendForwardMsg venv (Some [Some peer1, Some peer2]) [] 7 (Some [1, 2, 3]) override2)"
  have run: "?calls = [CallUnicast peer2 [0, 9, 9] 20 (Some (Error ''write: broken pipe'')),
                       CallUnicast peer1 [0, 1, 2, 3] 20 None]"
    by (simp add: SendForwardMsg_def venv_def peer1_def peer2_def msgToForward_def
        fwdMsgPayload_def override2_def)
  have m2: "CallUnicast peer2 [0, 9, 9] 20 (Some (Error ''write: broken pipe'')) \<in> set ?calls"
    and m1: "CallUnicast peer1 [0, 1, 2, 3] 20 None \<in> set ?calls"
    by (simp_all add: run)
  have o2: "override2 (ID (peer_Node peer2)) = Some (Some [9, 9])"
    and o1: "override2 (ID (peer_Node peer1)) = None"
    by (simp_all add: override2_def peer1_def peer2_def)
  from SendForwardMsg_payload_choice [OF m2] o2
  have e2: "\<exists>addrs. fwdMsgPayload venv 7 addrs [9, 9] = Inr [0, 9, 9]" by simp
  from SendForwardMsg_payload_choice [OF m1] o1
  have e1: "\<exists>addrs. fwdMsgPayload venv 7 addrs [1, 2, 3] = Inr [0, 1, 2, 3]" by simp
  from m2 m1 o2 o1 e2 e1 show ?thesis by blast
qed

text \<open>
  C10. With a list of proxies given (not \<open>nil\<close>), the proxy handler is not consulted
  and the \<open>validatorAddresses\<close> argument plays no part: every call made is a
  \<open>Unicast\<close> to one of the given peers, the envelope of each carries the \<open>nil\<close>
  address slice, and the outcome is the same for any other \<open>validatorAddresses\<close> and
  any other \<open>GetValidatorAssignments\<close>.
\<close>

theorem SendForwardMsg_given_peers:
  assumes "\<forall>m. mset (rangeOrder env m) = mset m"
  shows "(\<forall>call \<in> set (snd (SendForwardMsg env (Some peers) vals code payload psp)).
            \<exists>pp b msg. call = CallUnicast pp b (FwdMsg env) (Unicast env pp b (FwdMsg env)) \<and>
               Some pp \<in> set peers \<and> fwdMsgPayload env code None msg = Inr b) \<and>
         SendForwardMsg (env\<lparr>GetValidatorAssignments := g\<rparr>) (Some peers) vals' code payload psp =
           SendForwardMsg env (Some peers) vals code payload psp"
proof
  let ?m = "rangeOrder env (givenPeers peers [])"
  obtain r calls where sl: "sendLoop env code payload psp ?m = (r, calls)"
    by force
  have "\<exists>pp b msg. call = CallUnicast pp b (FwdMsg env) (Unicast env pp b (FwdMsg env)) \<and>
          Some pp \<in> set peers \<and> fwdMsgPayload env code None msg = Inr b"
    if "call \<in> set calls" for call
  proof -
    from sendLoop_calls [OF sl that] obtain pp addrs msg b where
      e: "(Some pp, addrs) \<in> set ?m" "fwdMsgPayload env code addrs msg = Inr b"
         "call = CallUnicast pp b (FwdMsg env) (Unicast env pp b (FwdMsg env))"
      by blast
    from e(1) have mem: "(Some pp, addrs) \<in> set (givenPeers peers [])"
      by (simp add: order_set [OF assms])
    then have "addrs = None"
      by (rule givenPeers_nil [rotated]) simp
    moreover from mem have "Some pp \<in> fst ` set (givenPeers peers [])" by force
    then have "Some pp \<in> set peers" by (simp add: givenPeers_keys)
    ultimately show ?thesis using e by blast
  qed
  with sl show "\<forall>call \<in> set (snd (SendForwardMsg env (Some peers) vals code payload psp)).
            \<exists>pp b msg. call = CallUnicast pp b (FwdMsg env) (Unicast env pp b (FwdMsg env)) \<and>
               Some pp \<in> set peers \<and> fwdMsgPayload env code None msg = Inr b"
    by (simp add: SendForwardMsg_def)
next
  have "sendLoop (env\<lparr>GetValidatorAssignments := g\<rparr>) code payload psp m =
        sendLoop env code payload psp m" for m
    by (induction env code payload psp m rule: sendLoop.induct)
       (simp_all add: fwdMsgPayload_def split: option.splits sum.splits)
  then show "SendForwardMsg (env\<lparr>GetValidatorAssignments := g\<rparr>) (Some peers) vals' code payload psp =
           SendForwardMsg env (Some peers) vals code payload psp"
    by (simp add: SendForwardMsg_def)
qed

theorem SendForwardMsg_given_peers_witness:
  "(\<forall>m. mset (rangeOrder venv m) = mset m) \<and>
   SendForwardMsg venv (Some [Some peer1]) [163] 7 (Some [1, 2, 3]) no_overrides =
     (Returns None, [CallUnicast peer1 [0, 1, 2, 3] 20 None]) \<and>
   (\<exists>msg. fwdMsgPayload venv 7 None msg = Inr [0, 1, 2, 3]) \<and>
   SendForwardMsg (venv\<lparr>GetValidatorAssignments := (\<lambda>vals. Inl (Error ''proxy handler is not running''))\<rparr>)
       (Some [Some peer1]) [] 7 (Some [1, 2, 3]) no_overrides =
     SendForwardMsg venv (Some [Some peer1]) [163] 7 (Some [1, 2, 3]) no_overrides"
proof -
  have h1: "\<forall>m. mset (rangeOrder venv m) = mset m" by (simp add: venv_def)
  have run: "SendForwardMsg venv (Some [Some peer1]) [163] 7 (Some [1, 2, 3]) no_overrides =
     (Returns None, [CallUnicast peer1 [0, 1, 2, 3] 20 None])"
    by (simp add: SendForwardMsg_def venv_def peer1_def msgToForward_def
        fwdMsgPayload_def no_overrides_def)
  note inst = SendForwardMsg_given_peers [OF h1, of "[Some peer1]" "[163]" 7 "Some [1, 2, 3]"
      no_overrides "\<lambda>vals. Inl (Error ''proxy handler is not running'')" "[]"]
  from inst [THEN conjunct1] have "\<exists>msg. fwdMsgPayload venv 7 None msg = Inr [0, 1, 2, 3]"
    by (auto simp: run)
  with h1 run inst [THEN conjunct2] show ?thesis by blast
qed

section \<open>Facts about the codec\<close>

lemma readint_snoc: "readint (bs @ [b]) = 256 * readint bs + unat b"
  by (simp add: readint_def)

lemma unat_byte: "n < 256 \<Longrightarrow> unat (word_of_nat n :: byte) = n"
  by (simp add: unat_of_nat)

lemma readint_putint: "readint (putint n) = n"
proof (induction n rule: putint.induct)
  case (1 n)
  show ?case
  proof (cases "n = 0")
    case True
    then show ?thesis by (simp add: putint.simps readint_def)
  next
    case False
    then have "putint n = putint (n div 256) @ [word_of_nat (n mod 256)]"
      by (subst putint.simps) simp
    with 1 False show ?thesis by (simp add: readint_snoc unat_byte)
  qed
qed

lemma putint_nonempty: "0 < n \<Longrightarrow> putint n \<noteq> []"
  by (subst putint.simps) simp

lemma putint_hd: "0 < n \<Longrightarrow> unat (hd (putint n)) \<noteq> 0"
proof (induction n rule: putint.induct)
  case (1 n)
  then have unf: "putint n = putint (n div 256) @ [word_of_nat (n mod 256)]"
    by (subst putint.simps) simp
  show ?case
  proof (cases "n div 256 = 0")
    case True
    then have "putint (n div 256) = []" by (simp add: putint.simps)
    moreover from True have "n mod 256 = n" by simp
    ultimately show ?thesis using 1 unf True by (simp add: unat_byte)
  next
    case False
    with 1 have "unat (hd (putint (n div 256))) \<noteq> 0" by simp
    moreover from False have "putint (n div 256) \<noteq> []" by (simp add: putint_nonempty)
    ultimately show ?thesis using unf by simp
  qed
qed

lemma putint_length: "n < 256 ^ k \<Longrightarrow> length (putint n) \<le> k"
proof (induction k arbitrary: n)
  case 0
  then show ?case by (simp add: putint.simps)
next
  case (Suc k)
  show ?case
  proof (cases "n = 0")
    case True
    then show ?thesis by (simp add: putint.simps)
  next
    case False
    then have unf: "putint n = putint (n div 256) @ [word_of_nat (n mod 256)]"
      by (subst putint.simps) simp
    from Suc.prems have "n div 256 < 256 ^ k"
      by (simp add: less_mult_imp_div_less mult.commute)
    from Suc.IH [OF this] unf show ?thesis by simp
  qed
qed

lemma putint_length8: "n < 2 ^ 64 \<Longrightarrow> length (putint n) \<le> 8"
  using putint_length [of n 8] by simp

lemma readValue_tag:
  assumes "t < 256"
  shows "readValue (word_of_nat t # bs) =
     (if t < 128 then Inr (Byte, [word_of_nat t], bs)
      else if t < 184 then readContent String (t - 128) bs
      else if t < 192 then
        (case readSize (t - 183) bs of
           Inl err \<Rightarrow> Inl err
         | Inr (sz, rest) \<Rightarrow> readContent String sz rest)
      else if t < 248 then readContent List (t - 192) bs
      else
        (case readSize (t - 247) bs of
           Inl err \<Rightarrow> Inl err
         | Inr (sz, rest) \<Rightarrow> readContent List sz rest))"
  using unat_byte [OF assms] by simp

lemma readValue_header:
  assumes "length content < 2 ^ 64" and "base = 128 \<and> k = String \<or> base = 192 \<and> k = List"
  shows "readValue (encodeHeader base (length content) @ content @ rest) = Inr (k, content, rest)"
proof (cases "length content < 56")
  case True
  have hdr: "encodeHeader base (length content) @ content @ rest =
               word_of_nat (base + length content) # content @ rest"
    using True by (simp only: encodeHeader_def if_True append_Cons append_Nil)
  have t: "base + length content < 256" using True assms(2) by auto
  show ?thesis
    unfolding hdr readValue_tag [OF t] using True assms(2)
    by (auto simp: readContent_def)
next
  case False
  let ?n = "length content"
  let ?l = "length (putint ?n)"
  from False have pos: "0 < ?n" by (cases content) simp_all
  have l1: "1 \<le> ?l" using putint_nonempty [OF pos] by (cases "putint ?n") auto
  have l8: "?l \<le> 8" by (rule putint_length8 [OF assms(1)])
  have size: "readSize ?l (putint ?n @ content @ rest) = Inr (?n, content @ rest)"
    using False putint_hd [OF pos] putint_nonempty [OF pos]
    by (simp add: readSize_def readint_putint)
  have hdr: "encodeHeader base ?n @ content @ rest =
               word_of_nat (base + 55 + ?l) # putint ?n @ content @ rest"
    using False by (simp only: encodeHeader_def if_False append_Cons append_Nil append_assoc)
  have t: "base + 55 + ?l < 256" using l8 assms(2) by auto
  show ?thesis
    unfolding hdr readValue_tag [OF t] using assms(2) l1 l8
    by (auto simp: size readContent_def)
qed


lemma length_encodeString: "length s \<le> length (encodeString s)"
  by (simp add: encodeString_def)

lemma length_encodeList: "length content < length (encodeList content)"
  by (simp add: encodeList_def encodeHeader_def)

lemma readValue_encodeList:
  "length content < 2 ^ 64 \<Longrightarrow> readValue (encodeList content @ rest) = Inr (List, content, rest)"
  using readValue_header [of content 192 List rest] by (simp add: encodeList_def)

lemma decodeBytes_encodeString:
  assumes "length s < 2 ^ 64"
  shows "decodeBytes (encodeString s @ rest) = Inr (s, rest)"
proof (cases "length s = 1 \<and> unat (hd s) < 128")
  case True
  then obtain b where "s = [b]" "unat b < 128"
    by (cases s) auto
  then show ?thesis by (simp add: decodeBytes_def encodeString_def)
next
  case False
  then have "encodeString s @ rest = encodeHeader 128 (length s) @ s @ rest"
    by (auto simp: encodeString_def)
  with False readValue_header [OF assms, of 128 String rest] show ?thesis
    by (auto simp: decodeBytes_def)
qed

lemma char_of_byte_of_char: "char_of_byte (byte_of_char c) = c"
  by (simp add: char_of_byte_def byte_of_char_def unat_of_nat)

lemma decodeText_encodeText:
  "length s < 2 ^ 64 \<Longrightarrow> decodeText (encodeText s @ rest) = Inr (s, rest)"
  using decodeBytes_encodeString [of "map byte_of_char s" rest]
  by (simp add: decodeText_def encodeText_def comp_def char_of_byte_of_char)

lemma readint_zeros: "readint (replicate k 0 @ bs) = readint bs"
  by (induction k) (simp_all add: readint_def)

lemma length_Address_Bytes: "length (Address_Bytes a) = 20"
proof -
  have "unat a < 2 ^ 160" using unsigned_less [of a] by simp
  then have "unat a < 256 ^ 20" by simp
  then have "length (putint (unat a)) \<le> 20" by (rule putint_length)
  then show ?thesis by (simp add: Address_Bytes_def)
qed

lemma BytesToAddress_Address_Bytes: "BytesToAddress (Address_Bytes a) = a"
  by (simp add: BytesToAddress_def Address_Bytes_def readint_zeros readint_putint)

lemma decodeAddress_encodeAddress: "decodeAddress (encodeAddress a @ rest) = Inr (a, rest)"
proof -
  note len = length_Address_Bytes [of a]
  then have "encodeAddress a @ rest =
      encodeHeader 128 (length (Address_Bytes a)) @ Address_Bytes a @ rest"
    by (simp add: encodeAddress_def encodeString_def)
  moreover have "length (Address_Bytes a) < 2 ^ 64" using len by simp
  from readValue_header [OF this, of 128 String rest]
  have "readValue (encodeHeader 128 (length (Address_Bytes a)) @ Address_Bytes a @ rest) =
      Inr (String, Address_Bytes a, rest)"
    by simp
  ultimately show ?thesis using len
    by (simp add: decodeAddress_def BytesToAddress_Address_Bytes)
qed

lemma decodeUint_encodeUint: "decodeUint (encodeUint i @ rest) = Inr (i, rest)"
proof -
  let ?s = "putint (unat i)"
  have again: "word_of_nat (readint ?s) = i" by (simp add: readint_putint)
  have "unat i < 2 ^ 64" using unsigned_less [of i] by simp
  then have l8: "length ?s \<le> 8" by (rule putint_length8)
  have hd0: "unat (hd ?s) \<noteq> 0" if "?s \<noteq> []"
  proof -
    from that have "0 < unat i" by (cases "unat i = 0") (simp_all add: putint.simps)
    then show ?thesis by (rule putint_hd)
  qed
  show ?thesis
  proof (cases "length ?s = 1 \<and> unat (hd ?s) < 128")
    case True
    then obtain b where b: "?s = [b]" "unat b < 128"
      by (cases ?s) auto
    from hd0 b have "unat b \<noteq> 0" by simp
    then have "readint [b] \<noteq> 0" by (simp add: readint_def)
    with b again show ?thesis
      by (simp add: decodeUint_def encodeUint_def encodeString_def)
  next
    case False
    then have "encodeUint i @ rest = encodeHeader 128 (length ?s) @ ?s @ rest"
      by (auto simp: encodeUint_def encodeString_def)
    moreover have "length ?s < 2 ^ 64" using l8 by simp
    from readValue_header [OF this, of 128 String rest]
    have "readValue (encodeHeader 128 (length ?s) @ ?s @ rest) = Inr (String, ?s, rest)"
      by simp
    ultimately have rv: "readValue (encodeUint i @ rest) = Inr (String, ?s, rest)"
      by simp
    show ?thesis
    proof (cases "?s = []")
      case True
      with rv again show ?thesis by (simp add: decodeUint_def)
    next
      case nonempty: False
      from hd0 [OF nonempty] nonempty False l8 rv again show ?thesis
        by (simp add: decodeUint_def)
    qed
  qed
qed

lemma decode_encode_sharedValidatorEnode:
  assumes "length (encode_sharedValidatorEnode sve) < 2 ^ 64"
  shows "decode_sharedValidatorEnode (encode_sharedValidatorEnode sve @ rest) = Inr (sve, rest)"
proof -
  let ?content = "encodeAddress (Address sve) @ encodeText (EnodeURL sve) @ encodeUint (Version sve)"
  have c: "length ?content < 2 ^ 64"
    using assms length_encodeList [of ?content]
    by (simp add: encode_sharedValidatorEnode_def)
  have "length (EnodeURL sve) \<le> length (encodeText (EnodeURL sve))"
    using length_encodeString [of "map byte_of_char (EnodeURL sve)"] by (simp add: encodeText_def)
  with c have url: "length (EnodeURL sve) < 2 ^ 64" by simp
  have "decodeUint (encodeUint (Version sve)) = Inr (Version sve, [])"
    using decodeUint_encodeUint [of "Version sve" "[]"] by simp
  then show ?thesis
    by (simp add: decode_sharedValidatorEnode_def encode_sharedValidatorEnode_def
        readValue_encodeList [OF c] decodeAddress_encodeAddress decodeText_encodeText [OF url])
qed

lemma encode_sharedValidatorEnode_nonempty: "encode_sharedValidatorEnode sve \<noteq> []"
  using length_encodeList [of "encodeAddress (Address sve) @ encodeText (EnodeURL sve) @ encodeUint (Version sve)"]
  by (auto simp: encode_sharedValidatorEnode_def)

lemma decodeSliceElems_encode:
  "length (concat (map encode_sharedValidatorEnode ves)) < 2 ^ 64 \<Longrightarrow>
   decodeSliceElems (concat (map encode_sharedValidatorEnode ves)) = Inr ves"
proof (induction ves)
  case Nil
  then show ?case by (simp add: decodeSliceElems.simps)
next
  case (Cons sve ves)
  from Cons.prems have one: "length (encode_sharedValidatorEnode sve) < 2 ^ 64"
    and more: "length (concat (map encode_sharedValidatorEnode ves)) < 2 ^ 64"
    by simp_all
  show ?case
    using decode_encode_sharedValidatorEnode [OF one] Cons.IH [OF more]
      encode_sharedValidatorEnode_nonempty [of sve]
    by (subst decodeSliceElems.simps) simp
qed

section \<open>The round trip of the enode share message\<close>

text \<open>
  C8. Decoding what \<open>EncodeRLP\<close> wrote gives the value back: for every
  \<open>valEnodesShareData\<close> \<open>x\<close>, \<open>EncodeRLP\<close> succeeds, and \<open>DecodeRLP\<close> on a stream
  that starts with the encoding returns no error and leaves the receiver equal to
  \<open>x\<close>, whatever it held before. The encoding is taken to be shorter than \<open>2 ^ 64\<close>
  bytes, the longest content the length prefix of the format can describe and more than
  a Go slice can hold.
\<close>

theorem valEnodesShareData_roundtrip:
  assumes "length (snd (EncodeRLP x [])) < 2 ^ 64"
  shows "fst (EncodeRLP x []) = None \<and>
         DecodeRLP sd (snd (EncodeRLP x []) @ rest) = (None, x)"
proof -
  let ?elems = "concat (map encode_sharedValidatorEnode (ValEnodes x))"
  let ?slice = "encode_ValEnodes (ValEnodes x)"
  from assms have s: "length ?slice < 2 ^ 64"
    using length_encodeList [of ?slice] by (simp add: EncodeRLP_def)
  then have e: "length ?elems < 2 ^ 64"
    using length_encodeList [of ?elems] by (simp add: encode_ValEnodes_def)
  have "decode_ValEnodes ?slice = Inr (ValEnodes x, [])"
    using readValue_encodeList [OF e, of "[]"] decodeSliceElems_encode [OF e]
    by (simp add: decode_ValEnodes_def encode_ValEnodes_def)
  moreover have "readValue (encodeList ?slice @ rest) = Inr (List, ?slice, rest)"
    by (rule readValue_encodeList [OF s])
  ultimately show ?thesis
    by (simp add: DecodeRLP_def EncodeRLP_def)
qed

theorem valEnodesShareData_roundtrip_witness:
  "length (snd (EncodeRLP batch1 [])) < 2 ^ 64 \<and>
   length (snd (EncodeRLP batch1 [])) = 78 \<and>
   fst (EncodeRLP batch1 []) = None \<and>
   DecodeRLP batch0 (snd (EncodeRLP batch1 []) @ [1, 2, 3]) = (None, batch1)"
proof -
  have len: "length (snd (EncodeRLP batch1 [])) = 78"
    by (simp add: EncodeRLP_def batch1_def encode_ValEnodes_def encode_sharedValidatorEnode_def
        encodeList_def encodeHeader_def encodeAddress_def encodeText_def encodeUint_def
        encodeString_def Address_Bytes_def byte_of_char_def putint.simps)
  then have h: "length (snd (EncodeRLP batch1 [])) < 2 ^ 64" by simp
  from valEnodesShareData_roundtrip [OF h, of batch0 "[1, 2, 3]"] len h show ?thesis by simp
qed

end
